theory Spec2Isabelle
  imports Main
begin

section \<open>mk2bash: Make variable assignments to bash assignments\<close>

text \<open>
  A shallow embedding of \<^verbatim>\<open>scripts/mk2bash.py\<close>. A Python \<^verbatim>\<open>str\<close> is modelled
  as a \<^typ>\<open>string\<close>; a \<^typ>\<open>char\<close> stands for a code point below 256. Standard output
  and the error stream are the lists of the lines that \<^verbatim>\<open>print\<close> wrote, one element
  per call.
\<close>

subsection \<open>String primitives of Python\<close>

text \<open>
  The white space of \<^verbatim>\<open>str.strip()\<close> and of the class \<^verbatim>\<open>\s\<close> of a \<^verbatim>\<open>str\<close> pattern
  (both use \<^verbatim>\<open>str.isspace\<close>): tab, line feed, vertical tab, form feed, carriage return,
  the four separators 0x1C to 0x1F, space, NEL (0x85) and the no-break space (0xA0).
\<close>

definition isspace :: "char \<Rightarrow> bool" where
  "isspace c \<longleftrightarrow>
     c \<in> {CHR 0x09, CHR 0x0A, CHR 0x0B, CHR 0x0C, CHR 0x0D,
          CHR 0x1C, CHR 0x1D, CHR 0x1E, CHR 0x1F, CHR 0x20, CHR 0x85, CHR 0xA0}"

text \<open>\<^verbatim>\<open>s.strip()\<close>: white space removed at both ends.\<close>

definition strip :: "string \<Rightarrow> string" where
  "strip s = rev (dropWhile isspace (rev (dropWhile isspace s)))"

text \<open>\<^verbatim>\<open>s.startswith(p)\<close>.\<close>

definition startswith :: "string \<Rightarrow> string \<Rightarrow> bool" where
  "startswith p s \<longleftrightarrow> take (length p) s = p"

text \<open>
  \<^verbatim>\<open>s.split(sep)\<close> for a separator of one character: the pieces between the separators,
  always at least one piece (the empty string splits into one empty piece).
\<close>

fun py_split :: "char \<Rightarrow> string \<Rightarrow> string list" where
  "py_split sep [] = [[]]"
| "py_split sep (c # cs) =
     (if c = sep then [] # py_split sep cs
      else (case py_split sep cs of
              [] \<Rightarrow> [[c]]
            | piece # pieces \<Rightarrow> (c # piece) # pieces))"

subsection \<open>The two regular expressions\<close>

text \<open>The character class \<^verbatim>\<open>[A-Z_]\<close>.\<close>

definition is_name_char :: "char \<Rightarrow> bool" where
  "is_name_char c \<longleftrightarrow> (65 \<le> (of_char c :: nat) \<and> (of_char c :: nat) \<le> 90) \<or> c = CHR ''_''"

text \<open>
  \<^verbatim>\<open>re.match(r'^([A-Z_]+)\s*:=\s*(.*)$', s)\<close>, returning the groups 1 and 2 of the match.
  Every quantifier is greedy and no shorter choice can rescue a failed attempt (the character
  after a maximal run is outside the class), so the match is decided by the maximal runs.
  The dot does not match a line feed, and \<^verbatim>\<open>$\<close> matches at the end of the string or
  before a line feed that ends the string.
\<close>

definition re_match_assignment :: "string \<Rightarrow> (string \<times> string) option" where
  "re_match_assignment s =
     (let var_name = takeWhile is_name_char s;
          r1 = dropWhile isspace (dropWhile is_name_char s)
      in if var_name = [] \<or> \<not> startswith '':='' r1 then None
         else
           let r2 = dropWhile isspace (drop 2 r1);
               var_value = takeWhile (\<lambda>c. c \<noteq> CHR 0x0A) r2;
               r3 = dropWhile (\<lambda>c. c \<noteq> CHR 0x0A) r2
           in if r3 = [] \<or> r3 = [CHR 0x0A] then Some (var_name, var_value) else None)"

text \<open>
  One attempt of the pattern \<^verbatim>\<open>\$\(([^)]+)\)\<close> at the start of \<open>s\<close>: group 1 and the
  text after the match. The class \<^verbatim>\<open>[^)]+\<close> takes the maximal run of characters other than
  the closing parenthesis, which must be non-empty and followed by a closing parenthesis.
\<close>

definition match_expansion :: "string \<Rightarrow> (string \<times> string) option" where
  "match_expansion s =
     (if startswith ''$('' s then
        (let x = takeWhile (\<lambda>c. c \<noteq> CHR '')'') (drop 2 s);
             r = dropWhile (\<lambda>c. c \<noteq> CHR '')'') (drop 2 s)
         in if x \<noteq> [] \<and> r \<noteq> [] then Some (x, tl r) else None)
      else None)"

text \<open>
  \<^verbatim>\<open>re.sub(r'\$\(([^)]+)\)', r'${\1}', s)\<close>: the leftmost match is replaced, the scan goes on
  after it; where no match starts, the character is copied.
\<close>

function re_sub_expansion :: "string \<Rightarrow> string" where
  "re_sub_expansion [] = []"
| "re_sub_expansion (c # cs) =
     (case match_expansion (c # cs) of
        None \<Rightarrow> c # re_sub_expansion cs
      | Some (x, rest) \<Rightarrow> ''${'' @ x @ ''}'' @ re_sub_expansion rest)"
  by pat_completeness auto
termination
proof (relation "measure length")
  show "wf (measure length)" by simp
next
  fix c :: char and cs :: string
  show "(cs, c # cs) \<in> measure length" by simp
next
  fix c :: char and cs x rest :: string and p
  assume m: "match_expansion (c # cs) = Some p" and p: "(x, rest) = p"
  from m p have "rest = tl (dropWhile (\<lambda>c. c \<noteq> CHR '')'') (drop 2 (c # cs)))"
    by (auto simp: match_expansion_def Let_def split: if_splits)
  moreover have "length (dropWhile (\<lambda>c. c \<noteq> CHR '')'') (drop 2 (c # cs))) \<le> length cs"
    by (rule le_trans [OF length_dropWhile_le]) simp
  ultimately show "(rest, c # cs) \<in> measure length" by simp
qed

subsection \<open>The program\<close>

text \<open>What \<^verbatim>\<open>open(make_file, 'r')\<close> followed by \<^verbatim>\<open>f.read()\<close> can raise.\<close>

datatype py_exception =
  FileNotFoundError | PermissionError | IsADirectoryError | UnicodeDecodeError | ValueError

text \<open>The file system: reading a path raises or yields the content of the file.\<close>

type_synonym filesystem = "string \<Rightarrow> py_exception + string"

text \<open>
  How a run ends: the code returns, \<^verbatim>\<open>sys.exit(n)\<close> is called, or an exception that no
  \<^verbatim>\<open>except\<close> clause catches leaves \<^verbatim>\<open>main\<close>. The fields \<open>stdout\<close> and \<open>stderr\<close> of an
  outcome hold what the calls of \<^verbatim>\<open>print\<close> in the program wrote. The traceback that the
  interpreter writes when an exception is not caught is no output of the program text: the
  ending \<open>Uncaught\<close> stands for it.
\<close>

datatype ending = Returned | SysExit int | Uncaught py_exception

record outcome =
  stdout :: "string list"
  stderr :: "string list"
  ending :: ending

text \<open>
  The exit status of the process: 0 after a return, the argument of \<^verbatim>\<open>sys.exit\<close>, and 1
  when the interpreter ends on an exception nobody caught.
\<close>

fun exit_status :: "ending \<Rightarrow> int" where
  "exit_status Returned = 0"
| "exit_status (SysExit n) = n"
| "exit_status (Uncaught e) = 1"

text \<open>The three \<^verbatim>\<open>print\<close> calls before the loop; \<open>CHR 0x27\<close> is the single quote.\<close>

definition header :: "string list" where
  "header =
     [''# Generated from config.mk - DO NOT EDIT DIRECTLY'',
      ''# Edit config.mk instead and run '' @ [CHR 0x27]
        @ ''make .github/workflows/config.env'' @ [CHR 0x27],
      '''']"

text \<open>
  The body of the loop for one line: \<open>None\<close> when the line is skipped, otherwise the line
  that is printed.
\<close>

definition translate_line :: "string \<Rightarrow> string option" where
  "translate_line line =
     (if startswith ''#'' (strip line) \<or> strip line = [] then None
      else (case re_match_assignment (strip line) of
              None \<Rightarrow> None
            | Some (var_name, var_value) \<Rightarrow>
                Some (var_name @ ''='' @ re_sub_expansion var_value)))"

text \<open>The loop \<^verbatim>\<open>for line in content.split('\n')\<close>: the lines it prints, in order.\<close>

fun process_lines :: "string list \<Rightarrow> string list" where
  "process_lines [] = []"
| "process_lines (line # rest) =
     (case translate_line line of
        None \<Rightarrow> process_lines rest
      | Some out \<Rightarrow> out # process_lines rest)"

definition convert_make_to_bash :: "filesystem \<Rightarrow> string \<Rightarrow> outcome" where
  "convert_make_to_bash fs make_file =
     (case fs make_file of
        Inl e \<Rightarrow>
          (if e = FileNotFoundError
           then \<lparr>stdout = [], stderr = [''Error: Could not find '' @ make_file],
                 ending = SysExit 1\<rparr>
           else \<lparr>stdout = [], stderr = [], ending = Uncaught e\<rparr>)
      | Inr content \<Rightarrow>
          \<lparr>stdout = header @ process_lines (py_split (CHR 0x0A) content),
           stderr = [], ending = Returned\<rparr>)"

text \<open>\<open>argv\<close> is \<^verbatim>\<open>sys.argv\<close>: the program name, then the arguments.\<close>

definition main :: "filesystem \<Rightarrow> string list \<Rightarrow> outcome" where
  "main fs argv =
     (if length argv \<noteq> 2
      then \<lparr>stdout = [], stderr = [''Usage: mk2bash.py <make_config_file>''],
            ending = SysExit 1\<rparr>
      else convert_make_to_bash fs (argv ! 1))"

subsection \<open>The wording of the specification\<close>

text \<open>
  The assignment pattern as the specification words it: one or more upper-case letters or
  underscores, then \<^verbatim>\<open>:=\<close>, optionally surrounded by white space, then the remainder of
  the line.
\<close>

definition assignment_shape :: "string \<Rightarrow> bool" where
  "assignment_shape s \<longleftrightarrow>
     (\<exists>name ws1 ws2 remainder.
        s = name @ ws1 @ '':='' @ ws2 @ remainder \<and> name \<noteq> [] \<and>
        (\<forall>c\<in>set name. is_name_char c) \<and> (\<forall>c\<in>set ws1. isspace c) \<and>
        (\<forall>c\<in>set ws2. isspace c))"

text \<open>
  An occurrence of \<^verbatim>\<open>$(X)\<close>, with \<open>X\<close> a run of characters other than the closing
  parenthesis, at the start of a text.
\<close>

definition reference_at :: "string \<Rightarrow> bool" where
  "reference_at s \<longleftrightarrow>
     (\<exists>x rest. x \<noteq> [] \<and> CHR '')'' \<notin> set x \<and> s = ''$('' @ x @ '')'' @ rest)"

text \<open>
  The substitution as the specification words it, read from left to right: every occurrence
  of \<^verbatim>\<open>$(X)\<close> becomes \<^verbatim>\<open>${X}\<close>, a character where no occurrence starts is kept.
\<close>

inductive rewritten :: "string \<Rightarrow> string \<Rightarrow> bool" where
  rewritten_Nil: "rewritten [] []"
| rewritten_ref:
    "x \<noteq> [] \<Longrightarrow> CHR '')'' \<notin> set x \<Longrightarrow> rewritten rest rest' \<Longrightarrow>
     rewritten (''$('' @ x @ '')'' @ rest) (''${'' @ x @ ''}'' @ rest')"
| rewritten_char:
    "\<not> reference_at (c # cs) \<Longrightarrow> rewritten cs cs' \<Longrightarrow> rewritten (c # cs) (c # cs')"

text \<open>
  A text ends inside an open reference when it holds a \<^verbatim>\<open>$(\<close> with no closing
  parenthesis after it.
\<close>

fun unclosed :: "string \<Rightarrow> bool" where
  "unclosed [] \<longleftrightarrow> False"
| "unclosed (c # cs) \<longleftrightarrow>
     (startswith ''$('' (c # cs) \<and> CHR '')'' \<notin> set (drop 2 (c # cs))) \<or> unclosed cs"

subsection \<open>Example inputs\<close>

text \<open>The example document of the specification, with more kinds of lines.\<close>

definition example_content :: string where
  "example_content =
     ''FOO := bar'' @ [CHR 0x0A] @
     ''BAZ := $(FOO)/baz'' @ [CHR 0x0A] @
     ''# comment'' @ [CHR 0x0A] @
     [CHR 0x0A] @
     ''target: dep'' @ [CHR 0x0A] @
     ''CC = gcc'' @ [CHR 0x0A] @
     ''CFLAGS ?= -O2'' @ [CHR 0x0A] @
     ''CFLAGS += -Wall'' @ [CHR 0x0A] @
     ''  OUT_DIR  :=   $(BAZ)/out dir  ''"

text \<open>
  A file system with one readable file, one file that exists and cannot be read, and
  nothing else.
\<close>

definition example_fs :: filesystem where
  "example_fs p =
     (if p = ''config.mk'' then Inr example_content
      else if p = ''secret.mk'' then Inl PermissionError
      else Inl FileNotFoundError)"

subsection \<open>Facts about the string primitives\<close>

lemma isspace_not_name: "isspace c \<Longrightarrow> \<not> is_name_char c"
  by (auto simp: isspace_def is_name_char_def)

lemma colon_plain: "\<not> isspace CHR '':''" "\<not> is_name_char CHR '':''"
  by (simp_all add: isspace_def is_name_char_def)

lemma dropWhile_all: "\<forall>c\<in>set xs. P c \<Longrightarrow> dropWhile P (xs @ ys) = dropWhile P ys"
  by (induction xs) auto

lemma takeWhile_all: "\<forall>c\<in>set xs. P c \<Longrightarrow> takeWhile P (xs @ ys) = xs @ takeWhile P ys"
  by (induction xs) auto

lemma dropWhile_stop: "ys = [] \<or> \<not> P (hd ys) \<Longrightarrow> dropWhile P ys = ys"
  by (cases ys) auto

lemma takeWhile_stop: "ys = [] \<or> \<not> P (hd ys) \<Longrightarrow> takeWhile P ys = []"
  by (cases ys) auto

lemma strip_core:
  assumes "\<forall>c\<in>set lead. isspace c" and "\<forall>c\<in>set trail. isspace c"
    and "core = [] \<or> \<not> isspace (hd core) \<and> \<not> isspace (last core)"
  shows "strip (lead @ core @ trail) = core"
proof (cases "core = []")
  case True
  with assms(1,2) have "dropWhile isspace (lead @ core @ trail) = []"
    by (auto simp: dropWhile_eq_Nil_conv)
  then have "strip (lead @ core @ trail) = []"
    by (simp only: strip_def rev.simps dropWhile.simps)
  with True show ?thesis by simp
next
  case False
  with assms(3) have ends: "\<not> isspace (hd core)" "\<not> isspace (last core)" by simp_all
  have "dropWhile isspace (lead @ core @ trail) = core @ trail"
    using assms(1) False ends(1) by (simp add: dropWhile_all dropWhile_stop)
  moreover have "dropWhile isspace (rev trail @ rev core) = rev core"
    using assms(2) False ends(2) by (simp add: dropWhile_all dropWhile_stop hd_rev)
  ultimately show ?thesis by (simp add: strip_def)
qed

lemma strip_decomp:
  "\<exists>lead trail. line = lead @ strip line @ trail \<and> (\<forall>c\<in>set lead. isspace c) \<and> (\<forall>c\<in>set trail. isspace c)"
proof -
  let ?a = "takeWhile isspace line" and ?m = "dropWhile isspace line"
  let ?t = "rev (takeWhile isspace (rev ?m))"
  have "?m = rev (takeWhile isspace (rev ?m) @ dropWhile isspace (rev ?m))"
    by (simp only: takeWhile_dropWhile_id rev_rev_ident)
  then have "?m = strip line @ ?t" by (simp only: strip_def rev_append)
  then have "line = ?a @ strip line @ ?t" by (metis takeWhile_dropWhile_id)
  moreover have "\<forall>c\<in>set ?a. isspace c" by (auto dest: set_takeWhileD)
  moreover have "\<forall>c\<in>set ?t. isspace c" by (auto dest: set_takeWhileD)
  ultimately show ?thesis by blast
qed

lemma strip_ends: "strip s \<noteq> [] \<Longrightarrow> \<not> isspace (hd (strip s)) \<and> \<not> isspace (last (strip s))"
proof
  assume ne: "strip s \<noteq> []"
  let ?m = "dropWhile isspace s"
  let ?r = "dropWhile isspace (rev ?m)"
  from ne have r: "?r \<noteq> []" by (simp add: strip_def)
  then have "\<not> isspace (hd ?r)" by (rule hd_dropWhile)
  with r show "\<not> isspace (last (strip s))" by (simp add: strip_def last_rev)
  from r have m: "?m \<noteq> []" by (metis dropWhile.simps(1) rev.simps(1))
  then have hm: "\<not> isspace (hd ?m)" by (rule hd_dropWhile)
  have "rev ?m = takeWhile isspace (rev ?m) @ ?r" by simp
  then have "?m = rev ?r @ rev (takeWhile isspace (rev ?m))" by (metis rev_append rev_rev_ident)
  with r have "hd ?m = hd (rev ?r)" by (metis hd_append2 rev_is_Nil_conv)
  with hm show "\<not> isspace (hd (strip s))" by (simp add: strip_def)
qed

subsection \<open>Facts about the two patterns\<close>

lemma re_match_assignment_shape:
  assumes "name \<noteq> []" and "\<forall>c\<in>set name. is_name_char c"
    and "\<forall>c\<in>set ws1. isspace c" and "\<forall>c\<in>set ws2. isspace c"
    and "v = [] \<or> \<not> isspace (hd v)" and "CHR 0x0A \<notin> set v"
  shows "re_match_assignment (name @ ws1 @ '':='' @ ws2 @ v) = Some (name, v)"
proof -
  let ?s = "name @ ws1 @ '':='' @ ws2 @ v"
  have a: "takeWhile is_name_char (ws1 @ '':='' @ ws2 @ v) = []"
    using assms(3) by (cases ws1) (simp_all add: colon_plain isspace_not_name)
  have b: "dropWhile is_name_char (ws1 @ '':='' @ ws2 @ v) = ws1 @ '':='' @ ws2 @ v"
    using assms(3) by (cases ws1) (simp_all add: colon_plain isspace_not_name)
  have n: "takeWhile is_name_char ?s = name"
    using assms(2) a by (simp add: takeWhile_all)
  have r1: "dropWhile isspace (dropWhile is_name_char ?s) = '':='' @ ws2 @ v"
    using assms(2,3) b by (simp add: dropWhile_all colon_plain)
  have r2: "dropWhile isspace (ws2 @ v) = v"
    using assms(4,5) by (simp add: dropWhile_all dropWhile_stop)
  have v1: "takeWhile (\<lambda>c. c \<noteq> CHR 0x0A) v = v"
    using assms(6) by (auto simp: takeWhile_eq_all_conv)
  have v2: "dropWhile (\<lambda>c. c \<noteq> CHR 0x0A) v = []"
    using assms(6) by (auto simp: dropWhile_eq_Nil_conv) 
  show ?thesis
    unfolding re_match_assignment_def Let_def n r1
    using assms(1) by (simp add: startswith_def r2 v1 v2)
qed

lemma re_match_assignment_Some:
  assumes "re_match_assignment s = Some (n, v)"
  shows "n \<noteq> [] \<and> (\<forall>c\<in>set n. is_name_char c) \<and> CHR 0x0A \<notin> set v \<and>
         (v = [] \<or> \<not> isspace (hd v)) \<and>
         (\<exists>ws1 ws2 e. s = n @ ws1 @ '':='' @ ws2 @ v @ e \<and> (\<forall>c\<in>set ws1. isspace c) \<and>
            (\<forall>c\<in>set ws2. isspace c) \<and> (e = [] \<or> e = [CHR 0x0A]))"
proof -
  let ?r0 = "dropWhile is_name_char s"
  let ?r1 = "dropWhile isspace ?r0"
  let ?r2 = "dropWhile isspace (drop 2 ?r1)"
  let ?nl = "\<lambda>c. c \<noteq> CHR 0x0A"
  from assms have n: "n = takeWhile is_name_char s" and ne: "n \<noteq> []"
    and st: "startswith '':='' ?r1" and v: "v = takeWhile ?nl ?r2"
    and e: "dropWhile ?nl ?r2 = [] \<or> dropWhile ?nl ?r2 = [CHR 0x0A]"
    by (auto simp: re_match_assignment_def Let_def split: if_splits)
  have 1: "s = n @ ?r0" by (simp add: n)
  have 2: "?r0 = takeWhile isspace ?r0 @ ?r1" by simp
  from st have 3: "?r1 = '':='' @ drop 2 ?r1"
    by (metis append_take_drop_id startswith_def length_Cons list.size(3) One_nat_def Suc_1)
  have 4: "drop 2 ?r1 = takeWhile isspace (drop 2 ?r1) @ ?r2" by simp
  have 5: "?r2 = v @ dropWhile ?nl ?r2" by (simp add: v)
  have "s = n @ takeWhile isspace ?r0 @ '':='' @ takeWhile isspace (drop 2 ?r1) @ v @ dropWhile ?nl ?r2"
    using 1 2 3 4 5 by metis
  moreover have "\<forall>c\<in>set (takeWhile isspace ?r0). isspace c" by (auto dest: set_takeWhileD)
  moreover have "\<forall>c\<in>set (takeWhile isspace (drop 2 ?r1)). isspace c" by (auto dest: set_takeWhileD)
  ultimately have ex: "\<exists>ws1 ws2 e. s = n @ ws1 @ '':='' @ ws2 @ v @ e \<and> (\<forall>c\<in>set ws1. isspace c) \<and>
            (\<forall>c\<in>set ws2. isspace c) \<and> (e = [] \<or> e = [CHR 0x0A])"
    using e by blast
  have nm: "\<forall>c\<in>set n. is_name_char c" unfolding n by (auto dest: set_takeWhileD)
  have vn: "CHR 0x0A \<notin> set v" unfolding v by (auto dest: set_takeWhileD)
  have vh: "v = [] \<or> \<not> isspace (hd v)"
  proof (cases "v = []")
    case False
    then have "?r2 \<noteq> []" using 5 by (metis append_is_Nil_conv)
    then have "\<not> isspace (hd ?r2)" by (rule hd_dropWhile)
    moreover have "hd ?r2 = hd v" using False 5 by (metis hd_append2)
    ultimately show ?thesis by simp
  qed simp
  from ne nm vn vh ex show ?thesis by blast
qed

lemma match_expansion_iff:
  "match_expansion s = Some (x, rest) \<longleftrightarrow>
     x \<noteq> [] \<and> CHR '')'' \<notin> set x \<and> s = ''$('' @ x @ '')'' @ rest"
proof
  let ?p = "\<lambda>c. c \<noteq> CHR '')''"
  assume m: "match_expansion s = Some (x, rest)"
  then have st: "startswith ''$('' s" and x: "x = takeWhile ?p (drop 2 s)" and xne: "x \<noteq> []"
    and r: "dropWhile ?p (drop 2 s) \<noteq> []" and rest: "rest = tl (dropWhile ?p (drop 2 s))"
    by (auto simp: match_expansion_def Let_def split: if_splits)
  from st have 1: "s = ''$('' @ drop 2 s"
    by (metis append_take_drop_id startswith_def length_Cons list.size(3) One_nat_def Suc_1)
  from r have "\<not> ?p (hd (dropWhile ?p (drop 2 s)))" by (rule hd_dropWhile)
  with r rest have 2: "dropWhile ?p (drop 2 s) = '')'' @ rest"
    by (cases "dropWhile ?p (drop 2 s)") simp_all
  have "drop 2 s = x @ dropWhile ?p (drop 2 s)" by (simp add: x)
  with 1 2 have "s = ''$('' @ x @ '')'' @ rest" by metis
  moreover have "CHR '')'' \<notin> set x" unfolding x by (auto dest: set_takeWhileD)
  ultimately show "x \<noteq> [] \<and> CHR '')'' \<notin> set x \<and> s = ''$('' @ x @ '')'' @ rest"
    using xne by blast
next
  let ?p = "\<lambda>c. c \<noteq> CHR '')''"
  assume a: "x \<noteq> [] \<and> CHR '')'' \<notin> set x \<and> s = ''$('' @ x @ '')'' @ rest"
  then have all: "\<forall>c\<in>set x. ?p c" by auto
  have t: "takeWhile ?p (x @ '')'' @ rest) = x"
    using all by (simp add: takeWhile_all)
  have d: "dropWhile ?p (x @ '')'' @ rest) = '')'' @ rest"
    using all by (simp add: dropWhile_all)
  from a have s: "s = ''$('' @ x @ '')'' @ rest" and xne: "x \<noteq> []" by simp_all
  show "match_expansion s = Some (x, rest)"
    unfolding s match_expansion_def Let_def startswith_def
    using xne t d by simp
qed

lemma match_expansion_None: "match_expansion s = None \<longleftrightarrow> \<not> reference_at s"
proof -
  have "reference_at s \<longleftrightarrow> (\<exists>x rest. match_expansion s = Some (x, rest))"
    by (simp add: reference_at_def match_expansion_iff)
  then show ?thesis by auto
qed

lemma re_sub_expansion_ref:
  "x \<noteq> [] \<Longrightarrow> CHR '')'' \<notin> set x \<Longrightarrow>
   re_sub_expansion (''$('' @ x @ '')'' @ rest) = ''${'' @ x @ ''}'' @ re_sub_expansion rest"
proof -
  assume "x \<noteq> []" "CHR '')'' \<notin> set x"
  then have "match_expansion (CHR ''$'' # CHR ''('' # x @ '')'' @ rest) = Some (x, rest)"
    by (simp add: match_expansion_iff)
  then show ?thesis by simp
qed

lemma re_sub_expansion_char:
  "\<not> reference_at (c # cs) \<Longrightarrow> re_sub_expansion (c # cs) = c # re_sub_expansion cs"
  by (simp add: match_expansion_None [symmetric])

lemma rewritten_re_sub_expansion: "rewritten v (re_sub_expansion v)"
proof (induction v rule: re_sub_expansion.induct)
  case 1
  show ?case by (simp add: rewritten_Nil)
next
  case (2 c cs)
  show ?case
  proof (cases "match_expansion (c # cs)")
    case None
    then have "\<not> reference_at (c # cs)" by (simp add: match_expansion_None)
    moreover from 2(1) None have "rewritten cs (re_sub_expansion cs)" by simp
    ultimately have "rewritten (c # cs) (c # re_sub_expansion cs)" by (rule rewritten_char)
    moreover from None have "re_sub_expansion (c # cs) = c # re_sub_expansion cs" by simp
    ultimately show ?thesis by (simp only:)
  next
    case (Some p)
    obtain x rest where p: "p = (x, rest)" by (cases p)
    from Some p have eq: "x \<noteq> []" "CHR '')'' \<notin> set x" "c # cs = ''$('' @ x @ '')'' @ rest"
      by (simp_all add: match_expansion_iff)
    from 2(2) Some p have "rewritten rest (re_sub_expansion rest)" by simp
    with eq(1,2) have "rewritten (''$('' @ x @ '')'' @ rest) (''${'' @ x @ ''}'' @ re_sub_expansion rest)"
      by (rule rewritten_ref)
    moreover from Some p have "re_sub_expansion (c # cs) = ''${'' @ x @ ''}'' @ re_sub_expansion rest"
      by simp
    ultimately show ?thesis by (simp only: eq(3))
  qed
qed

lemma rewritten_unique: "rewritten v v' \<Longrightarrow> v' = re_sub_expansion v"
proof (induction rule: rewritten.induct)
  case rewritten_Nil
  show ?case by simp
next
  case (rewritten_ref x rest rest')
  from rewritten_ref.hyps(1,2)
  have "re_sub_expansion (''$('' @ x @ '')'' @ rest) = ''${'' @ x @ ''}'' @ re_sub_expansion rest"
    by (rule re_sub_expansion_ref)
  with rewritten_ref.IH show ?case by (simp only:)
next
  case (rewritten_char c cs cs')
  from rewritten_char.hyps(1)
  have "re_sub_expansion (c # cs) = c # re_sub_expansion cs"
    by (rule re_sub_expansion_char)
  with rewritten_char.IH show ?case by (simp only:)
qed

subsection \<open>Facts about the loop\<close>

lemma py_split_not_Nil: "py_split sep s \<noteq> []"
  by (induction s) (auto split: list.splits)

lemma py_split_no_sep: "l \<in> set (py_split sep s) \<Longrightarrow> sep \<notin> set l"
proof (induction s arbitrary: l)
  case Nil
  then show ?case by simp
next
  case (Cons c cs)
  show ?case
  proof (cases "c = sep")
    case True
    with Cons show ?thesis by auto
  next
    case False
    obtain piece pieces where sp: "py_split sep cs = piece # pieces"
      using py_split_not_Nil [of sep cs] by (cases "py_split sep cs") auto
    with Cons.prems False have "l = c # piece \<or> l \<in> set pieces" by simp
    moreover have "sep \<notin> set piece" using Cons.IH [of piece] sp by simp
    moreover have "l \<in> set pieces \<Longrightarrow> sep \<notin> set l" using Cons.IH [of l] sp by simp
    ultimately show ?thesis using False by auto
  qed
qed

lemma process_lines_append:
  "process_lines (xs @ ys) = process_lines xs @ process_lines ys"
  by (induction xs) (auto split: option.splits)

lemma process_lines_filter_map:
  "process_lines ls = map (the \<circ> translate_line) (filter (\<lambda>l. translate_line l \<noteq> None) ls)"
  by (induction ls) (auto split: option.splits)

lemma process_lines_origin:
  "out \<in> set (process_lines ls) \<longleftrightarrow> (\<exists>line\<in>set ls. translate_line line = Some out)"
  by (induction ls) (auto split: option.splits)

lemma example_lines:
  "py_split (CHR 0x0A) example_content =
     [''FOO := bar'', ''BAZ := $(FOO)/baz'', ''# comment'', '''', ''target: dep'',
      ''CC = gcc'', ''CFLAGS ?= -O2'', ''CFLAGS += -Wall'',
      ''  OUT_DIR  :=   $(BAZ)/out dir  '']"
  by (simp add: example_content_def)

lemma example_translations:
  "translate_line ''FOO := bar'' = Some ''FOO=bar''"
  "translate_line ''BAZ := $(FOO)/baz'' = Some ''BAZ=${FOO}/baz''"
  "translate_line ''# comment'' = None"
  "translate_line '''' = None"
  "translate_line ''target: dep'' = None"
  "translate_line ''CC = gcc'' = None"
  "translate_line ''CFLAGS ?= -O2'' = None"
  "translate_line ''CFLAGS += -Wall'' = None"
  "translate_line ''  OUT_DIR  :=   $(BAZ)/out dir  '' = Some ''OUT_DIR=${BAZ}/out dir''"
  by (simp_all add: translate_line_def strip_def startswith_def isspace_def is_name_char_def
      re_match_assignment_def match_expansion_def)

lemma example_run:
  "convert_make_to_bash example_fs ''config.mk'' =
     \<lparr>stdout = header @ [''FOO=bar'', ''BAZ=${FOO}/baz'', ''OUT_DIR=${BAZ}/out dir''],
      stderr = [], ending = Returned\<rparr>"
  by (simp add: convert_make_to_bash_def example_fs_def example_lines example_translations)

lemma strip_blank: "\<forall>c\<in>set line. isspace c \<Longrightarrow> strip line = []"
  using strip_core [of line "[]" "[]"] by simp

lemma strip_comment:
  assumes "\<forall>c\<in>set ws. isspace c"
  shows "startswith ''#'' (strip (ws @ ''#'' @ text))"
proof -
  let ?s = "''#'' @ text"
  have h: "\<not> isspace CHR ''#''" by (simp add: isspace_def)
  have eq: "strip (ws @ ?s) = strip ?s"
    using assms by (simp add: strip_def dropWhile_all)
  obtain lead trail where d: "?s = lead @ strip ?s @ trail"
    and l: "\<forall>c\<in>set lead. isspace c" and t: "\<forall>c\<in>set trail. isspace c"
    using strip_decomp [of ?s] by blast
  from d l h have lead: "lead = []" by (cases lead) auto
  with d t h have "strip ?s \<noteq> []" by (cases "strip ?s") auto
  with d lead have "hd (strip ?s) = CHR ''#''" by (cases "strip ?s") auto
  with \<open>strip ?s \<noteq> []\<close> have "startswith ''#'' (strip ?s)"
    by (cases "strip ?s") (simp_all add: startswith_def)
  with eq show ?thesis by simp
qed

subsection \<open>The pattern of the code and the pattern of the specification\<close>

lemma assignment_shape_match:
  assumes "assignment_shape s" and "CHR 0x0A \<notin> set s"
  shows "re_match_assignment s \<noteq> None"
proof -
  from assms(1) obtain name ws1 ws2 remainder where
    s: "s = name @ ws1 @ '':='' @ ws2 @ remainder" and n: "name \<noteq> []"
    and nc: "\<forall>c\<in>set name. is_name_char c" and w1: "\<forall>c\<in>set ws1. isspace c"
    and w2: "\<forall>c\<in>set ws2. isspace c"
    unfolding assignment_shape_def by blast
  let ?ws = "ws2 @ takeWhile isspace remainder" and ?v = "dropWhile isspace remainder"
  have s': "s = name @ ws1 @ '':='' @ ?ws @ ?v" by (simp add: s)
  have w: "\<forall>c\<in>set ?ws. isspace c" using w2 by (auto dest: set_takeWhileD)
  have h: "?v = [] \<or> \<not> isspace (hd ?v)" using hd_dropWhile [of isspace remainder] by blast
  have "CHR 0x0A \<notin> set remainder" using assms(2) s by simp
  then have nl: "CHR 0x0A \<notin> set ?v" by (auto dest: set_dropWhileD)
  have "re_match_assignment (name @ ws1 @ '':='' @ ?ws @ ?v) = Some (name, ?v)"
    using n nc w1 w h nl by (rule re_match_assignment_shape)
  with s' show ?thesis by simp
qed

lemma match_assignment_shape:
  assumes "re_match_assignment s \<noteq> None"
  shows "assignment_shape s"
proof -
  from assms obtain n v where "re_match_assignment s = Some (n, v)" by (cases "re_match_assignment s") auto
  from re_match_assignment_Some [OF this] obtain ws1 ws2 e where
    "n \<noteq> []" "\<forall>c\<in>set n. is_name_char c" "s = n @ ws1 @ '':='' @ ws2 @ (v @ e)"
    "\<forall>c\<in>set ws1. isspace c" "\<forall>c\<in>set ws2. isspace c"
    by auto
  then show ?thesis unfolding assignment_shape_def by blast
qed

lemma set_strip: "set (strip s) \<subseteq> set s"
proof -
  obtain lead trail where "s = lead @ strip s @ trail"
    using strip_decomp [of s] by blast
  then have "set s = set lead \<union> set (strip s) \<union> set trail"
    by (metis set_append sup_assoc)
  then show ?thesis by blast
qed

lemma translate_line_assignment:
  assumes "CHR 0x0A \<notin> set line"
    and "line = lead @ name @ ws1 @ '':='' @ ws2 @ v @ trail"
    and "name \<noteq> []" and "\<forall>c\<in>set name. is_name_char c"
    and "\<forall>c\<in>set (lead @ ws1 @ ws2 @ trail). isspace c"
    and "v = [] \<or> \<not> isspace (hd v) \<and> \<not> isspace (last v)"
  shows "translate_line line = Some (name @ ''='' @ re_sub_expansion v)"
proof -
  have sp: "\<forall>c\<in>set lead. isspace c" "\<forall>c\<in>set ws1. isspace c" "\<forall>c\<in>set ws2. isspace c"
    "\<forall>c\<in>set trail. isspace c"
    using assms(5) by auto
  have nl: "CHR 0x0A \<notin> set v" using assms(1,2) by simp
  have "is_name_char (hd name)" using assms(3,4) by simp
  moreover have "\<not> is_name_char CHR ''#''" by (simp add: is_name_char_def)
  ultimately have hn: "\<not> isspace (hd name)" "hd name \<noteq> CHR ''#''"
    using isspace_not_name [of "hd name"] by auto
  have eqs: "\<not> isspace CHR ''=''" by (simp add: isspace_def)
  have "\<exists>ws. strip line = name @ ws1 @ '':='' @ ws @ v \<and> (\<forall>c\<in>set ws. isspace c)"
  proof (cases "v = []")
    case True
    let ?core = "name @ ws1 @ '':=''"
    have "strip (lead @ ?core @ (ws2 @ trail)) = ?core"
      using sp assms(3) hn(1) eqs by (intro strip_core) auto
    with True assms(2) have "strip line = name @ ws1 @ '':='' @ [] @ v" by simp
    then show ?thesis by (metis empty_iff list.set(1))
  next
    case False
    let ?core = "name @ ws1 @ '':='' @ ws2 @ v"
    have "last ?core = last v" using False by simp
    moreover have "hd ?core = hd name" using assms(3) by simp
    ultimately have "strip (lead @ ?core @ trail) = ?core"
      using sp(1,4) assms(6) False hn(1) by (intro strip_core) auto
    with assms(2) have "strip line = ?core" by simp
    with sp(3) show ?thesis by blast
  qed
  then obtain ws where st: "strip line = name @ ws1 @ '':='' @ ws @ v"
    and ws: "\<forall>c\<in>set ws. isspace c" by blast
  have m: "re_match_assignment (strip line) = Some (name, v)"
    unfolding st using assms(3,4) sp(2) ws _ nl
    by (rule re_match_assignment_shape) (use assms(6) in auto)
  have ne: "strip line \<noteq> []" using st assms(3) by simp
  have "hd (strip line) = hd name" using st assms(3) by simp
  with hn(2) ne have "\<not> startswith ''#'' (strip line)"
    by (cases "strip line") (auto simp: startswith_def)
  with ne m show ?thesis by (simp add: translate_line_def)
qed

lemma translate_line_None:
  assumes "\<not> assignment_shape (strip line)"
  shows "translate_line line = None"
proof -
  from assms have "re_match_assignment (strip line) = None"
    using match_assignment_shape by blast
  then show ?thesis by (simp add: translate_line_def)
qed

subsection \<open>The ends of a substituted value\<close>

lemma re_sub_expansion_Nil_iff: "re_sub_expansion v = [] \<longleftrightarrow> v = []"
  by (cases v) (auto split: option.splits)

lemma re_sub_expansion_hd:
  assumes "v \<noteq> []" and "\<not> isspace (hd v)"
  shows "\<not> isspace (hd (re_sub_expansion v))"
proof -
  have d: "\<not> isspace CHR ''$''" by (simp add: isspace_def)
  from assms(1) obtain c cs where v: "v = c # cs" by (cases v) auto
  show ?thesis
  proof (cases "match_expansion (c # cs)")
    case None
    with v assms(2) show ?thesis by simp
  next
    case (Some p)
    with v d show ?thesis by (cases p) simp
  qed
qed

lemma re_sub_expansion_last:
  "v \<noteq> [] \<Longrightarrow> \<not> isspace (last v) \<Longrightarrow> \<not> isspace (last (re_sub_expansion v))"
proof (induction v rule: re_sub_expansion.induct)
  case 1
  then show ?case by simp
next
  case (2 c cs)
  have b: "\<not> isspace CHR ''}''" by (simp add: isspace_def)
  show ?case
  proof (cases "match_expansion (c # cs)")
    case None
    then have eq: "re_sub_expansion (c # cs) = c # re_sub_expansion cs" by simp
    show ?thesis
    proof (cases "cs = []")
      case True
      with eq "2.prems" show ?thesis by simp
    next
      case False
      with "2.prems" have "\<not> isspace (last cs)" by simp
      with "2.IH"(1) [OF None False] have "\<not> isspace (last (re_sub_expansion cs))" .
      with eq False show ?thesis by (simp add: re_sub_expansion_Nil_iff)
    qed
  next
    case (Some p)
    obtain x rest where p: "p = (x, rest)" by (cases p)
    from Some p have s: "c # cs = ''$('' @ x @ '')'' @ rest"
      by (simp add: match_expansion_iff)
    from Some p have eq: "re_sub_expansion (c # cs) = ''${'' @ x @ ''}'' @ re_sub_expansion rest"
      by simp
    show ?thesis
    proof (cases "rest = []")
      case True
      with eq b show ?thesis by simp
    next
      case False
      from s False have "last (c # cs) = last rest" by (simp only: last_append) simp
      with "2.prems" have "\<not> isspace (last rest)" by simp
      with "2.IH"(2) [OF Some p [symmetric] False]
      have "\<not> isspace (last (re_sub_expansion rest))" .
      with eq False show ?thesis by (simp add: re_sub_expansion_Nil_iff)
    qed
  qed
qed

lemma re_match_assignment_stripped:
  assumes "re_match_assignment (strip line) = Some (n, v)"
  shows "n \<noteq> [] \<and> (\<forall>c\<in>set n. is_name_char c) \<and>
         (v = [] \<or> \<not> isspace (hd v) \<and> \<not> isspace (last v))"
proof -
  from re_match_assignment_Some [OF assms] obtain ws1 ws2 e where
    n: "n \<noteq> []" "\<forall>c\<in>set n. is_name_char c" and h: "v = [] \<or> \<not> isspace (hd v)"
    and s: "strip line = n @ ws1 @ '':='' @ ws2 @ v @ e" and e: "e = [] \<or> e = [CHR 0x0A]"
    by blast
  have nl: "isspace (CHR 0x0A)" by (simp add: isspace_def)
  from s n have ne: "strip line \<noteq> []" by simp
  then have l: "\<not> isspace (last (strip line))" using strip_ends by blast
  have "v = [] \<or> \<not> isspace (last v)"
  proof (cases "e = []")
    case True
    show ?thesis
    proof (cases "v = []")
      case False
      with s True have "last (strip line) = last v" by simp
      with l show ?thesis by simp
    qed simp
  next
    case False
    with e s have "last (strip line) = CHR 0x0A" by auto
    with l nl show ?thesis by simp
  qed
  with n h show ?thesis by blast
qed

lemma translate_line_shape:
  assumes "translate_line line = Some out"
  shows "\<exists>name v. out = name @ ''='' @ v \<and> name \<noteq> [] \<and> (\<forall>c\<in>set name. is_name_char c) \<and>
           (v = [] \<or> \<not> isspace (hd v) \<and> \<not> isspace (last v))"
proof -
  from assms obtain n v where m: "re_match_assignment (strip line) = Some (n, v)"
    and out: "out = n @ ''='' @ re_sub_expansion v"
    by (auto simp: translate_line_def split: if_splits option.splits)
  from re_match_assignment_stripped [OF m]
  have n: "n \<noteq> []" "\<forall>c\<in>set n. is_name_char c"
    and v: "v = [] \<or> \<not> isspace (hd v) \<and> \<not> isspace (last v)" by blast+
  from v have "re_sub_expansion v = [] \<or>
      \<not> isspace (hd (re_sub_expansion v)) \<and> \<not> isspace (last (re_sub_expansion v))"
    using re_sub_expansion_hd [of v] re_sub_expansion_last [of v]
    by (auto simp: re_sub_expansion_Nil_iff)
  with out n show ?thesis by blast
qed

subsection \<open>Substitution and concatenation\<close>

lemma unclosed_append: "unclosed ys \<Longrightarrow> unclosed (xs @ ys)"
  by (induction xs) auto

lemma match_expansion_append_None:
  assumes "match_expansion s = None" and "\<not> unclosed s" and "zs = [] \<or> hd zs \<noteq> CHR ''(''"
    and "s \<noteq> []"
  shows "match_expansion (s @ zs) = None"
proof (cases "startswith ''$('' s")
  case True
  let ?p = "\<lambda>c. c \<noteq> CHR '')''"
  from True have "take (length ''$('') s = ''$(''" unfolding startswith_def .
  then have "length (take (length ''$('') s) = length ''$(''" by (rule arg_cong)
  then have len: "2 \<le> length s" by simp
  from len obtain c cs where "s = c # cs" by (cases s) auto
  with True assms(2) have cl: "CHR '')'' \<in> set (drop 2 s)" by auto
  then have d: "dropWhile ?p (drop 2 s) \<noteq> []" by (auto simp: dropWhile_eq_Nil_conv)
  with assms(1) True have t: "takeWhile ?p (drop 2 s) = []"
    by (auto simp: match_expansion_def Let_def split: if_splits)
  from cl have "takeWhile ?p (drop 2 s @ zs) = takeWhile ?p (drop 2 s)"
    by (intro takeWhile_append1 [of "CHR '')''"]) auto
  with t len show ?thesis by (simp add: match_expansion_def Let_def)
next
  case False
  have "\<not> startswith ''$('' (s @ zs)"
  proof (cases s)
    case Nil
    with assms(4) show ?thesis by simp
  next
    case (Cons c cs)
    show ?thesis
    proof (cases cs)
      case Nil
      with Cons assms(3) show ?thesis by (cases zs) (auto simp: startswith_def)
    next
      case (Cons d ds)
      with \<open>s = c # cs\<close> False show ?thesis by (auto simp: startswith_def)
    qed
  qed
  then show ?thesis by (simp add: match_expansion_def)
qed

lemma re_sub_expansion_append:
  "\<not> unclosed xs \<Longrightarrow> zs = [] \<or> hd zs \<noteq> CHR ''('' \<Longrightarrow>
   re_sub_expansion (xs @ zs) = re_sub_expansion xs @ re_sub_expansion zs"
proof (induction xs rule: re_sub_expansion.induct)
  case 1
  show ?case by simp
next
  case (2 c cs)
  show ?case
  proof (cases "match_expansion (c # cs)")
    case None
    from "2.prems"(1) have u: "\<not> unclosed cs" by simp
    from None "2.prems" have "match_expansion ((c # cs) @ zs) = None"
      by (rule match_expansion_append_None) simp
    then have "re_sub_expansion ((c # cs) @ zs) = c # re_sub_expansion (cs @ zs)" by simp
    also have "re_sub_expansion (cs @ zs) = re_sub_expansion cs @ re_sub_expansion zs"
      using "2.IH"(1) [OF None u "2.prems"(2)] .
    finally show ?thesis using None by simp
  next
    case (Some p)
    obtain x rest where p: "p = (x, rest)" by (cases p)
    from Some p have x: "x \<noteq> []" "CHR '')'' \<notin> set x" and s: "c # cs = ''$('' @ x @ '')'' @ rest"
      by (simp_all add: match_expansion_iff)
    have u: "\<not> unclosed rest"
    proof
      assume "unclosed rest"
      then have "unclosed ((''$('' @ x @ '')'') @ rest)" by (rule unclosed_append)
      with s "2.prems"(1) show False by (simp only: append_assoc)
    qed
    have "(c # cs) @ zs = ''$('' @ x @ '')'' @ (rest @ zs)" by (simp only: s append_assoc)
    moreover have "re_sub_expansion (''$('' @ x @ '')'' @ (rest @ zs)) =
        ''${'' @ x @ ''}'' @ re_sub_expansion (rest @ zs)"
      using x by (rule re_sub_expansion_ref)
    ultimately have "re_sub_expansion ((c # cs) @ zs) =
        ''${'' @ x @ ''}'' @ re_sub_expansion (rest @ zs)"
      by (simp only:)
    also have "re_sub_expansion (rest @ zs) = re_sub_expansion rest @ re_sub_expansion zs"
      using "2.IH"(2) [OF Some p [symmetric] u "2.prems"(2)] .
    finally show ?thesis using Some p by simp
  qed
qed

lemma re_sub_expansion_empty_ref:
  "re_sub_expansion (''$()'' @ after) = ''$()'' @ re_sub_expansion after"
  by (simp add: match_expansion_def startswith_def)

text \<open>
  Every line that prints something has the form that \<open>translate_line_assignment\<close> asks for.
\<close>

lemma translate_line_Some_form:
  assumes "translate_line line = Some out"
  shows "\<exists>lead name ws1 ws2 v trail.
           line = lead @ name @ ws1 @ '':='' @ ws2 @ v @ trail \<and> name \<noteq> [] \<and>
           (\<forall>c\<in>set name. is_name_char c) \<and> (\<forall>c\<in>set (lead @ ws1 @ ws2 @ trail). isspace c) \<and>
           (v = [] \<or> \<not> isspace (hd v) \<and> \<not> isspace (last v))"
proof -
  from assms obtain n v where m: "re_match_assignment (strip line) = Some (n, v)"
    by (auto simp: translate_line_def split: if_splits option.splits)
  from re_match_assignment_stripped [OF m]
  have n: "n \<noteq> []" "\<forall>c\<in>set n. is_name_char c"
    and v: "v = [] \<or> \<not> isspace (hd v) \<and> \<not> isspace (last v)" by blast+
  from re_match_assignment_Some [OF m] obtain ws1 ws2 e where
    s: "strip line = n @ ws1 @ '':='' @ ws2 @ v @ e" and w: "\<forall>c\<in>set ws1. isspace c"
    "\<forall>c\<in>set ws2. isspace c" and e: "e = [] \<or> e = [CHR 0x0A]"
    by blast
  have "e = []"
  proof (rule ccontr)
    assume "e \<noteq> []"
    with e s have "last (strip line) = CHR 0x0A" by auto
    moreover have "strip line \<noteq> []" using s n by simp
    ultimately show False using strip_ends [of line] by (simp add: isspace_def)
  qed
  obtain lead trail where d: "line = lead @ strip line @ trail"
    and lt: "\<forall>c\<in>set lead. isspace c" "\<forall>c\<in>set trail. isspace c"
    using strip_decomp [of line] by blast
  from d s \<open>e = []\<close> have "line = lead @ n @ ws1 @ '':='' @ ws2 @ v @ trail" by simp
  moreover from w lt have "\<forall>c\<in>set (lead @ ws1 @ ws2 @ trail). isspace c" by auto
  ultimately show ?thesis using n v by blast
qed

section \<open>The claims\<close>

text \<open>
  C6: with any number of command-line arguments other than one (so \<open>argv\<close>, which starts
  with the program name, has a length other than two), the program prints the usage message
  \<^verbatim>\<open>Usage: mk2bash.py <make_config_file>\<close> to the error stream, prints nothing to standard
  output and exits with status 1.
\<close>

theorem wrong_argument_count:
  "length argv \<noteq> 2 \<Longrightarrow>
   main fs argv =
     \<lparr>stdout = [], stderr = [''Usage: mk2bash.py <make_config_file>''], ending = SysExit 1\<rparr> \<and>
   exit_status (ending (main fs argv)) \<noteq> 0"
  by (simp add: main_def)

theorem wrong_argument_count_witness:
  "length [''mk2bash.py''] \<noteq> 2 \<and>
   stdout (main example_fs [''mk2bash.py'']) = [] \<and>
   stderr (main example_fs [''mk2bash.py'']) = [''Usage: mk2bash.py <make_config_file>''] \<and>
   exit_status (ending (main example_fs [''mk2bash.py''])) \<noteq> 0 \<and>
   length [''mk2bash.py'', ''config.mk'', ''extra''] \<noteq> 2 \<and>
   stdout (main example_fs [''mk2bash.py'', ''config.mk'', ''extra'']) = [] \<and>
   exit_status (ending (main example_fs [''mk2bash.py'', ''config.mk'', ''extra''])) \<noteq> 0"
  using wrong_argument_count [of "[''mk2bash.py'']" example_fs]
    wrong_argument_count [of "[''mk2bash.py'', ''config.mk'', ''extra'']" example_fs]
  by simp

text \<open>
  C7: when the one argument names a file that does not exist, the program prints exactly
  \<^verbatim>\<open>Error: Could not find <path>\<close> to the error stream, nothing to standard output, and
  exits with status 1.
\<close>

theorem missing_file_reported:
  "length argv = 2 \<Longrightarrow> fs (argv ! 1) = Inl FileNotFoundError \<Longrightarrow>
   main fs argv =
     \<lparr>stdout = [], stderr = [''Error: Could not find '' @ argv ! 1], ending = SysExit 1\<rparr> \<and>
   exit_status (ending (main fs argv)) \<noteq> 0"
  by (simp add: main_def convert_make_to_bash_def)

theorem missing_file_reported_witness:
  "length [''mk2bash.py'', ''absent.mk''] = 2 \<and>
   example_fs ([''mk2bash.py'', ''absent.mk''] ! 1) = Inl FileNotFoundError \<and>
   stdout (main example_fs [''mk2bash.py'', ''absent.mk'']) = [] \<and>
   stderr (main example_fs [''mk2bash.py'', ''absent.mk'']) = [''Error: Could not find absent.mk''] \<and>
   exit_status (ending (main example_fs [''mk2bash.py'', ''absent.mk''])) \<noteq> 0"
proof -
  have l: "length [''mk2bash.py'', ''absent.mk''] = 2" by simp
  have f: "example_fs ([''mk2bash.py'', ''absent.mk''] ! 1) = Inl FileNotFoundError"
    by (simp add: example_fs_def)
  show ?thesis using l f missing_file_reported [of "[''mk2bash.py'', ''absent.mk'']" example_fs, OF l f] by simp
qed

text \<open>
  C8: on a successful run (one argument, naming a file that can be read) standard output is
  the two comment lines of the header, one empty line, and then the lines printed for the
  assignments of the input and nothing else: every line after the header is the translation
  of an input line. Nothing goes to the error stream and the exit status is 0.
\<close>

theorem successful_run_layout:
  assumes "length argv = 2" and "fs (argv ! 1) = Inr content"
  shows "stdout (main fs argv) =
           [''# Generated from config.mk - DO NOT EDIT DIRECTLY'',
            ''# Edit config.mk instead and run '' @ [CHR 0x27]
              @ ''make .github/workflows/config.env'' @ [CHR 0x27],
            ''''] @ process_lines (py_split (CHR 0x0A) content) \<and>
         (\<forall>out\<in>set (drop 3 (stdout (main fs argv))).
            \<exists>line\<in>set (py_split (CHR 0x0A) content). translate_line line = Some out) \<and>
         stderr (main fs argv) = [] \<and> ending (main fs argv) = Returned \<and>
         exit_status (ending (main fs argv)) = 0"
  using assms by (simp add: main_def convert_make_to_bash_def header_def process_lines_origin)

theorem successful_run_layout_witness:
  "length [''mk2bash.py'', ''config.mk''] = 2 \<and>
   example_fs ([''mk2bash.py'', ''config.mk''] ! 1) = Inr example_content \<and>
   stdout (main example_fs [''mk2bash.py'', ''config.mk'']) =
     [''# Generated from config.mk - DO NOT EDIT DIRECTLY'',
      ''# Edit config.mk instead and run '' @ [CHR 0x27]
        @ ''make .github/workflows/config.env'' @ [CHR 0x27],
      '''', ''FOO=bar'', ''BAZ=${FOO}/baz'', ''OUT_DIR=${BAZ}/out dir''] \<and>
   exit_status (ending (main example_fs [''mk2bash.py'', ''config.mk''])) = 0"
proof -
  have l: "length [''mk2bash.py'', ''config.mk''] = 2" by simp
  have f: "example_fs ([''mk2bash.py'', ''config.mk''] ! 1) = Inr example_content"
    by (simp add: example_fs_def)
  show ?thesis
    using l f successful_run_layout [of "[''mk2bash.py'', ''config.mk'']" example_fs example_content, OF l f]
    by (simp add: example_lines example_translations)
qed

text \<open>
  C5: the assignment lines of the output (what follows the three header lines) are the
  translations of the input lines that have one, in the order of the input: a stable filter
  of the lines followed by a map.
\<close>

theorem output_order_is_input_order:
  "fs make_file = Inr content \<Longrightarrow>
   drop 3 (stdout (convert_make_to_bash fs make_file)) =
     map (the \<circ> translate_line)
       (filter (\<lambda>line. translate_line line \<noteq> None) (py_split (CHR 0x0A) content))"
  by (simp add: convert_make_to_bash_def header_def process_lines_filter_map)

theorem output_order_is_input_order_witness:
  "example_fs ''config.mk'' = Inr example_content \<and>
   drop 3 (stdout (convert_make_to_bash example_fs ''config.mk'')) =
     [''FOO=bar'', ''BAZ=${FOO}/baz'', ''OUT_DIR=${BAZ}/out dir'']"
proof -
  have f: "example_fs ''config.mk'' = Inr example_content"
    by (simp add: example_fs_def)
  show ?thesis
    using f output_order_is_input_order [of example_fs "''config.mk''" example_content, OF f]
    by (simp add: example_lines example_translations)
qed

text \<open>
  C4: an input line that consists of white space only (the empty line included), or whose
  first character after leading white space is \<^verbatim>\<open>#\<close>, prints nothing: the run is the run
  on the lines before it followed by the run on the lines after it, it ends normally and
  nothing goes to the error stream.
\<close>

theorem blank_and_comment_lines_skipped:
  assumes "(\<forall>c\<in>set line. isspace c) \<or>
           (\<exists>ws text. line = ws @ ''#'' @ text \<and> (\<forall>c\<in>set ws. isspace c))"
    and "fs make_file = Inr content"
    and "py_split (CHR 0x0A) content = before @ line # after"
  shows "translate_line line = None \<and>
         convert_make_to_bash fs make_file =
           \<lparr>stdout = header @ process_lines before @ process_lines after,
            stderr = [], ending = Returned\<rparr>"
proof -
  from assms(1) have "strip line = [] \<or> startswith ''#'' (strip line)"
    using strip_blank strip_comment by blast
  then have t: "translate_line line = None" by (auto simp: translate_line_def)
  then have "process_lines (before @ line # after) = process_lines before @ process_lines after"
    by (simp add: process_lines_append)
  with t assms(2,3) show ?thesis by (simp add: convert_make_to_bash_def)
qed

theorem blank_and_comment_lines_skipped_witness:
  "example_fs ''config.mk'' = Inr example_content \<and>
   py_split (CHR 0x0A) example_content =
     [''FOO := bar'', ''BAZ := $(FOO)/baz''] @ ''# comment'' # ['''', ''target: dep'',
      ''CC = gcc'', ''CFLAGS ?= -O2'', ''CFLAGS += -Wall'',
      ''  OUT_DIR  :=   $(BAZ)/out dir  ''] \<and>
   translate_line ''# comment'' = None \<and>
   stdout (convert_make_to_bash example_fs ''config.mk'') =
     header @ [''FOO=bar'', ''BAZ=${FOO}/baz''] @ [''OUT_DIR=${BAZ}/out dir'']"
proof -
  have c: "(\<forall>c\<in>set ''# comment''. isspace c) \<or>
           (\<exists>ws text. ''# comment'' = ws @ ''#'' @ text \<and> (\<forall>c\<in>set ws. isspace c))"
    by (rule disjI2, rule exI [of _ "[]"], rule exI [of _ "'' comment''"]) simp
  have f: "example_fs ''config.mk'' = Inr example_content"
    by (simp add: example_fs_def)
  have s: "py_split (CHR 0x0A) example_content =
     [''FOO := bar'', ''BAZ := $(FOO)/baz''] @ ''# comment'' # ['''', ''target: dep'',
      ''CC = gcc'', ''CFLAGS ?= -O2'', ''CFLAGS += -Wall'',
      ''  OUT_DIR  :=   $(BAZ)/out dir  '']"
    by (simp add: example_lines)
  show ?thesis
    using f s blank_and_comment_lines_skipped [of "''# comment''" example_fs "''config.mk''"
        example_content "[''FOO := bar'', ''BAZ := $(FOO)/baz'']"
        "['''', ''target: dep'', ''CC = gcc'', ''CFLAGS ?= -O2'', ''CFLAGS += -Wall'',
          ''  OUT_DIR  :=   $(BAZ)/out dir  '']", OF c f s]
    by (simp add: example_translations)
qed

text \<open>
  C1: an input line made of optional white space, a name of one or more upper-case letters
  or underscores, \<^verbatim>\<open>:=\<close> with optional white space on both sides, a value (the remainder,
  which neither starts nor ends with white space) and optional white space, prints the line
  \<^verbatim>\<open>NAME=value'\<close>, where \<open>value'\<close> is the one text that the value becomes when every
  occurrence of \<^verbatim>\<open>$(X)\<close> is replaced by \<^verbatim>\<open>${X}\<close> and every other character is kept. The
  printed line depends on the text of the line alone: no variable is looked up.
\<close>

theorem assignment_line_rewritten:
  assumes "fs make_file = Inr content"
    and "line \<in> set (py_split (CHR 0x0A) content)"
    and "line = lead @ name @ ws1 @ '':='' @ ws2 @ v @ trail"
    and "name \<noteq> []" and "\<forall>c\<in>set name. is_name_char c"
    and "\<forall>c\<in>set (lead @ ws1 @ ws2 @ trail). isspace c"
    and "v = [] \<or> \<not> isspace (hd v) \<and> \<not> isspace (last v)"
  shows "translate_line line = Some (name @ ''='' @ re_sub_expansion v) \<and>
         name @ ''='' @ re_sub_expansion v \<in> set (stdout (convert_make_to_bash fs make_file)) \<and>
         (\<forall>v'. rewritten v v' \<longleftrightarrow> v' = re_sub_expansion v)"
proof -
  have "CHR 0x0A \<notin> set line" using assms(2) by (rule py_split_no_sep)
  then have t: "translate_line line = Some (name @ ''='' @ re_sub_expansion v)"
    using assms(3-7) by (rule translate_line_assignment)
  with assms(2) have "name @ ''='' @ re_sub_expansion v \<in> set (process_lines (py_split (CHR 0x0A) content))"
    unfolding process_lines_origin by blast
  with assms(1) have "name @ ''='' @ re_sub_expansion v \<in> set (stdout (convert_make_to_bash fs make_file))"
    by (simp add: convert_make_to_bash_def)
  moreover have "\<forall>v'. rewritten v v' \<longleftrightarrow> v' = re_sub_expansion v"
    using rewritten_unique rewritten_re_sub_expansion by blast
  ultimately show ?thesis using t by blast
qed

theorem assignment_line_rewritten_witness:
  "example_fs ''config.mk'' = Inr example_content \<and>
   ''  OUT_DIR  :=   $(BAZ)/out dir  '' \<in> set (py_split (CHR 0x0A) example_content) \<and>
   ''OUT_DIR=${BAZ}/out dir'' \<in> set (stdout (convert_make_to_bash example_fs ''config.mk'')) \<and>
   (\<forall>v'. rewritten ''$(BAZ)/out dir'' v' \<longleftrightarrow> v' = ''${BAZ}/out dir'')"
proof -
  have f: "example_fs ''config.mk'' = Inr example_content"
    by (simp add: example_fs_def)
  have l: "''  OUT_DIR  :=   $(BAZ)/out dir  '' \<in> set (py_split (CHR 0x0A) example_content)"
    by (simp add: example_lines)
  have d: "''  OUT_DIR  :=   $(BAZ)/out dir  '' =
           ''  '' @ ''OUT_DIR'' @ ''  '' @ '':='' @ ''   '' @ ''$(BAZ)/out dir'' @ ''  ''"
    by simp
  have n: "''OUT_DIR'' \<noteq> []" by simp
  have nc: "\<forall>c\<in>set ''OUT_DIR''. is_name_char c" by (simp add: is_name_char_def)
  have w: "\<forall>c\<in>set (''  '' @ ''  '' @ ''   '' @ ''  ''). isspace c" by (simp add: isspace_def)
  have v: "''$(BAZ)/out dir'' = [] \<or>
           \<not> isspace (hd ''$(BAZ)/out dir'') \<and> \<not> isspace (last ''$(BAZ)/out dir'')"
    by (simp add: isspace_def)
  have s: "re_sub_expansion ''$(BAZ)/out dir'' = ''${BAZ}/out dir''"
    by (simp add: match_expansion_def startswith_def)
  show ?thesis
    using f l assignment_line_rewritten [of example_fs "''config.mk''" example_content
        "''  OUT_DIR  :=   $(BAZ)/out dir  ''" "''  ''" "''OUT_DIR''" "''  ''" "''   ''"
        "''$(BAZ)/out dir''" "''  ''", OF f l d n nc w v]
    by (simp only: s append.simps) simp
qed

text \<open>
  C3: an input line whose stripped form is not empty, does not start with \<^verbatim>\<open>#\<close> and does
  not have the shape of an assignment (a name of upper-case letters and underscores, then
  \<^verbatim>\<open>:=\<close> with optional white space around it) prints nothing and raises nothing: the run is
  the run on the lines before it followed by the run on the lines after it, and it ends
  normally with nothing on the error stream. A rule line and assignments with the operators
  \<^verbatim>\<open>=\<close>, \<^verbatim>\<open>?=\<close> and \<^verbatim>\<open>+=\<close> are such lines.
\<close>

theorem other_lines_dropped:
  assumes "strip line \<noteq> []" and "\<not> startswith ''#'' (strip line)"
    and "\<not> assignment_shape (strip line)"
    and "fs make_file = Inr content"
    and "py_split (CHR 0x0A) content = before @ line # after"
  shows "translate_line line = None \<and>
         convert_make_to_bash fs make_file =
           \<lparr>stdout = header @ process_lines before @ process_lines after,
            stderr = [], ending = Returned\<rparr>"
proof -
  from assms(3) have t: "translate_line line = None" by (rule translate_line_None)
  then have "process_lines (before @ line # after) = process_lines before @ process_lines after"
    by (simp add: process_lines_append)
  with t assms(4,5) show ?thesis by (simp add: convert_make_to_bash_def)
qed

theorem other_lines_dropped_witness:
  "strip ''CFLAGS += -Wall'' \<noteq> [] \<and> \<not> startswith ''#'' (strip ''CFLAGS += -Wall'') \<and>
   \<not> assignment_shape (strip ''CFLAGS += -Wall'') \<and>
   \<not> assignment_shape (strip ''target: dep'') \<and>
   \<not> assignment_shape (strip ''CC = gcc'') \<and>
   \<not> assignment_shape (strip ''CFLAGS ?= -O2'') \<and>
   example_fs ''config.mk'' = Inr example_content \<and>
   translate_line ''CFLAGS += -Wall'' = None \<and>
   convert_make_to_bash example_fs ''config.mk'' =
     \<lparr>stdout = header @ [''FOO=bar'', ''BAZ=${FOO}/baz''] @ [''OUT_DIR=${BAZ}/out dir''],
      stderr = [], ending = Returned\<rparr>"
proof -
  have st: "strip ''CFLAGS += -Wall'' = ''CFLAGS += -Wall''"
    "strip ''target: dep'' = ''target: dep''" "strip ''CC = gcc'' = ''CC = gcc''"
    "strip ''CFLAGS ?= -O2'' = ''CFLAGS ?= -O2''"
    by (simp_all add: strip_def isspace_def)
  have a: "strip ''CFLAGS += -Wall'' \<noteq> []" by (simp add: st)
  have b: "\<not> startswith ''#'' (strip ''CFLAGS += -Wall'')" by (simp add: st startswith_def)
  have m: "re_match_assignment ''CFLAGS += -Wall'' = None"
    "re_match_assignment ''target: dep'' = None" "re_match_assignment ''CC = gcc'' = None"
    "re_match_assignment ''CFLAGS ?= -O2'' = None"
    by (simp_all add: re_match_assignment_def is_name_char_def isspace_def startswith_def)
  have c: "\<not> assignment_shape (strip ''CFLAGS += -Wall'')"
    using assignment_shape_match [of "''CFLAGS += -Wall''"] m(1) by (auto simp: st)
  have c2: "\<not> assignment_shape (strip ''target: dep'')"
    using assignment_shape_match [of "''target: dep''"] m(2) by (auto simp: st)
  have c3: "\<not> assignment_shape (strip ''CC = gcc'')"
    using assignment_shape_match [of "''CC = gcc''"] m(3) by (auto simp: st)
  have c4: "\<not> assignment_shape (strip ''CFLAGS ?= -O2'')"
    using assignment_shape_match [of "''CFLAGS ?= -O2''"] m(4) by (auto simp: st)
  have f: "example_fs ''config.mk'' = Inr example_content"
    by (simp add: example_fs_def)
  have s: "py_split (CHR 0x0A) example_content =
     [''FOO := bar'', ''BAZ := $(FOO)/baz'', ''# comment'', '''', ''target: dep'',
      ''CC = gcc'', ''CFLAGS ?= -O2''] @ ''CFLAGS += -Wall'' #
     [''  OUT_DIR  :=   $(BAZ)/out dir  '']"
    by (simp add: example_lines)
  show ?thesis
    using a b c c2 c3 c4 f
      other_lines_dropped [of "''CFLAGS += -Wall''" example_fs "''config.mk''" example_content
        "[''FOO := bar'', ''BAZ := $(FOO)/baz'', ''# comment'', '''', ''target: dep'',
          ''CC = gcc'', ''CFLAGS ?= -O2'']" "[''  OUT_DIR  :=   $(BAZ)/out dir  '']",
        OF a b c f s]
    by (simp add: example_translations)
qed

text \<open>
  C10: on a run that reads its file, every line of standard output after the three header
  lines is \<^verbatim>\<open>NAME=value\<close>, with a non-empty \<open>NAME\<close> of upper-case letters and underscores
  only and a value that neither starts nor ends with white space, whatever white space the
  input line has around the name, the operator and the value.
\<close>

theorem output_lines_shape:
  assumes "fs make_file = Inr content"
    and "out \<in> set (drop 3 (stdout (convert_make_to_bash fs make_file)))"
  shows "\<exists>name v. out = name @ ''='' @ v \<and> name \<noteq> [] \<and> (\<forall>c\<in>set name. is_name_char c) \<and>
           (v = [] \<or> \<not> isspace (hd v) \<and> \<not> isspace (last v))"
proof -
  from assms have "out \<in> set (process_lines (py_split (CHR 0x0A) content))"
    by (simp add: convert_make_to_bash_def header_def)
  then obtain line where "translate_line line = Some out"
    unfolding process_lines_origin by blast
  then show ?thesis by (rule translate_line_shape)
qed

theorem output_lines_shape_witness:
  "example_fs ''config.mk'' = Inr example_content \<and>
   translate_line ''  OUT_DIR  :=   $(BAZ)/out dir  '' = Some ''OUT_DIR=${BAZ}/out dir'' \<and>
   ''OUT_DIR=${BAZ}/out dir'' \<in> set (drop 3 (stdout (convert_make_to_bash example_fs ''config.mk''))) \<and>
   (\<exists>name v. ''OUT_DIR=${BAZ}/out dir'' = name @ ''='' @ v \<and> name \<noteq> [] \<and>
      (\<forall>c\<in>set name. is_name_char c) \<and>
      (v = [] \<or> \<not> isspace (hd v) \<and> \<not> isspace (last v)))"
proof -
  have f: "example_fs ''config.mk'' = Inr example_content"
    by (simp add: example_fs_def)
  have m: "''OUT_DIR=${BAZ}/out dir'' \<in> set (drop 3 (stdout (convert_make_to_bash example_fs ''config.mk'')))"
    by (simp add: example_run header_def)
  show ?thesis
    using f m output_lines_shape [of example_fs "''config.mk''" example_content
        "''OUT_DIR=${BAZ}/out dir''", OF f m]
    by (simp only: example_translations)
qed

text \<open>
  C9, as stated, fails: in the value \<^verbatim>\<open>$($()\<close> the text \<^verbatim>\<open>$()\<close> occurs at the third
  character, and the substitution turns the value into \<^verbatim>\<open>${$(}\<close>, where it no longer
  occurs: the first \<^verbatim>\<open>$(\<close> opens a match whose identifier is \<^verbatim>\<open>$(\<close> and whose end is
  the closing parenthesis of the \<^verbatim>\<open>$()\<close>.
\<close>

theorem empty_reference_inside_match_counterexample:
  "translate_line (''X := '' @ ''$('' @ ''$()'') = Some ''X=${$(}'' \<and>
   re_sub_expansion (''$('' @ ''$()'') \<noteq> re_sub_expansion ''$('' @ ''$()''"
  by (simp add: translate_line_def strip_def startswith_def isspace_def is_name_char_def
      re_match_assignment_def match_expansion_def)

text \<open>
  C9, amended: an occurrence of \<^verbatim>\<open>$()\<close> in a value is left as it is, and the text before
  it and the text after it are substituted on their own, when the text before it does not
  end inside an open \<^verbatim>\<open>$(\<close> (one with no closing parenthesis after it). In particular
  \<^verbatim>\<open>$()\<close> itself is never a match: the identifier of a match is never empty.
\<close>

theorem empty_reference_kept:
  "\<not> unclosed before \<Longrightarrow>
   re_sub_expansion (before @ ''$()'' @ after) =
     re_sub_expansion before @ ''$()'' @ re_sub_expansion after"
proof -
  assume "\<not> unclosed before"
  moreover have "''$()'' @ after = [] \<or> hd (''$()'' @ after) \<noteq> CHR ''(''" by simp
  ultimately have "re_sub_expansion (before @ ''$()'' @ after) =
      re_sub_expansion before @ re_sub_expansion (''$()'' @ after)"
    by (rule re_sub_expansion_append)
  then show ?thesis by (simp only: re_sub_expansion_empty_ref)
qed

theorem empty_reference_kept_witness:
  "\<not> unclosed ''$(A)/'' \<and>
   re_sub_expansion (''$(A)/'' @ ''$()'' @ ''/$(B)'') = ''${A}/'' @ ''$()'' @ ''/${B}'' \<and>
   translate_line ''X := $(A)/$()/$(B)'' = Some ''X=${A}/$()/${B}''"
proof -
  have u: "\<not> unclosed ''$(A)/''" by (simp add: startswith_def)
  have a: "re_sub_expansion ''$(A)/'' = ''${A}/''" "re_sub_expansion ''/$(B)'' = ''/${B}''"
    by (simp_all add: match_expansion_def startswith_def)
  show ?thesis
    using u empty_reference_kept [of "''$(A)/''" "''/$(B)''", OF u]
    by (simp only: a)
      (simp add: translate_line_def strip_def startswith_def isspace_def is_name_char_def
        re_match_assignment_def match_expansion_def)
qed

text \<open>
  C2, as stated, fails: for a file that exists and cannot be read, \<^verbatim>\<open>open\<close> raises
  \<^verbatim>\<open>PermissionError\<close>, which the clause \<^verbatim>\<open>except FileNotFoundError\<close> does not catch. The
  program prints no message of its own; the exception leaves \<^verbatim>\<open>main\<close>.
\<close>

theorem unreadable_file_counterexample:
  "example_fs ''secret.mk'' = Inl PermissionError \<and>
   stderr (convert_make_to_bash example_fs ''secret.mk'') = [] \<and>
   ending (convert_make_to_bash example_fs ''secret.mk'') = Uncaught PermissionError"
  by (simp add: example_fs_def convert_make_to_bash_def)

text \<open>
  C2, amended: when the file cannot be read, nothing is printed to standard output (not even
  the header) and the exit status is not 0. When the file does not exist the program prints
  \<^verbatim>\<open>Error: Could not find <path>\<close> to the error stream and calls \<^verbatim>\<open>sys.exit(1)\<close>; on any
  other failure it prints nothing itself and the exception propagates uncaught.
\<close>

theorem unreadable_file_outcome:
  "fs make_file = Inl e \<Longrightarrow>
   stdout (convert_make_to_bash fs make_file) = [] \<and>
   exit_status (ending (convert_make_to_bash fs make_file)) \<noteq> 0 \<and>
   (e = FileNotFoundError \<longrightarrow>
      stderr (convert_make_to_bash fs make_file) = [''Error: Could not find '' @ make_file] \<and>
      ending (convert_make_to_bash fs make_file) = SysExit 1) \<and>
   (e \<noteq> FileNotFoundError \<longrightarrow>
      stderr (convert_make_to_bash fs make_file) = [] \<and>
      ending (convert_make_to_bash fs make_file) = Uncaught e)"
  by (simp add: convert_make_to_bash_def)

theorem unreadable_file_outcome_witness:
  "example_fs ''absent.mk'' = Inl FileNotFoundError \<and>
   stdout (convert_make_to_bash example_fs ''absent.mk'') = [] \<and>
   stderr (convert_make_to_bash example_fs ''absent.mk'') = [''Error: Could not find absent.mk''] \<and>
   exit_status (ending (convert_make_to_bash example_fs ''absent.mk'')) \<noteq> 0 \<and>
   example_fs ''secret.mk'' = Inl PermissionError \<and>
   stdout (convert_make_to_bash example_fs ''secret.mk'') = [] \<and>
   exit_status (ending (convert_make_to_bash example_fs ''secret.mk'')) \<noteq> 0"
proof -
  have a: "example_fs ''absent.mk'' = Inl FileNotFoundError" by (simp add: example_fs_def)
  have s: "example_fs ''secret.mk'' = Inl PermissionError" by (simp add: example_fs_def)
  show ?thesis
    using a s unreadable_file_outcome [of example_fs "''absent.mk''" FileNotFoundError, OF a]
      unreadable_file_outcome [of example_fs "''secret.mk''" PermissionError, OF s]
    by simp
qed

end
